theory Spec2Isabelle
  imports Main
begin

section \<open>Python values, dictionaries and errors\<close>

text \<open>
  The travel state and every node's patch are plain Python dictionaries at run time
  (\<^verbatim>\<open>TravelState\<close> is a \<^verbatim>\<open>TypedDict\<close>, which checks nothing when the program runs), so
  both are maps from key names to values. Values nested below the top level (the
  \<^verbatim>\<open>{"data": ..., "analysis": ...}\<close> results, the mock search payloads) are dictionary
  literals, kept as association lists in the order the source writes them.
\<close>

datatype pyval =
    PyStr string
  | PyBool bool
  | PyList "pyval list"
  | PyDict "(string \<times> pyval) list"

type_synonym travel_state = "string \<rightharpoonup> pyval"

text \<open>
  \<open>KeyError k\<close> is what \<^verbatim>\<open>d[k]\<close> raises on a dictionary without the key \<open>k\<close>,
  \<open>TypeError\<close> what subscripting a value that is no dictionary with a string raises.
  \<open>GenerationError\<close> stands for a failure of the text-generation provider; the source
  has no handler for any of them, so each leaves the function that meets it.
\<close>

datatype error = KeyError string | TypeError | GenerationError

definition getitem :: "travel_state \<Rightarrow> string \<Rightarrow> error + pyval" where
  "getitem d k = (case d k of None \<Rightarrow> Inl (KeyError k) | Some v \<Rightarrow> Inr v)"

definition subscript :: "pyval \<Rightarrow> string \<Rightarrow> error + pyval" where
  "subscript v k =
     (case v of
        PyDict d \<Rightarrow> (case map_of d k of None \<Rightarrow> Inl (KeyError k) | Some x \<Rightarrow> Inr x)
      | _ \<Rightarrow> Inl TypeError)"

section \<open>The mock search providers (models.py)\<close>

definition mock_flight_search :: "pyval \<Rightarrow> pyval \<Rightarrow> pyval \<Rightarrow> pyval" where
  "mock_flight_search destination dates budget =
     PyDict [
       (''flights'', PyList [
          PyDict [(''airline'', PyStr ''Ryanair''), (''price'', PyStr ''$450''),
                  (''departure'', PyStr ''8:30 AM''), (''arrival'', PyStr ''2:15 PM''),
                  (''duration'', PyStr ''1h 45m'')],
          PyDict [(''airline'', PyStr ''Aer Lingus''), (''price'', PyStr ''$420''),
                  (''departure'', PyStr ''1:20 PM''), (''arrival'', PyStr ''7:05 PM''),
                  (''duration'', PyStr ''1h 45m'')]]),
       (''destination'', destination),
       (''search_dates'', dates)]"

definition mock_hotel_search :: "pyval \<Rightarrow> pyval \<Rightarrow> pyval \<Rightarrow> pyval" where
  "mock_hotel_search destination dates budget =
     PyDict [
       (''hotels'', PyList [
          PyDict [(''name'', PyStr ''Hotel Catalonia''), (''price'', PyStr ''$150/night''),
                  (''rating'', PyStr ''4.5/5''),
                  (''amenities'', PyList [PyStr ''Pool'', PyStr ''Gym'', PyStr ''WiFi'',
                                          PyStr ''Breakfast''])],
          PyDict [(''name'', PyStr ''NH Hotels''), (''price'', PyStr ''$89/night''),
                  (''rating'', PyStr ''4.2/5''),
                  (''amenities'', PyList [PyStr ''WiFi'', PyStr ''Parking'',
                                          PyStr ''24h Front Desk''])]]),
       (''destination'', destination),
       (''search_dates'', dates)]"

definition mock_events_search :: "pyval \<Rightarrow> pyval \<Rightarrow> pyval" where
  "mock_events_search destination dates =
     PyDict [
       (''events'', PyList [
          PyDict [(''name'', PyStr ''Local Art Festival''), (''date'', PyStr ''Weekend''),
                  (''price'', PyStr ''Free''), (''category'', PyStr ''Arts & Culture'')],
          PyDict [(''name'', PyStr ''Food & Wine Tour''), (''date'', PyStr ''Daily''),
                  (''price'', PyStr ''$75''), (''category'', PyStr ''Food & Drink'')]]),
       (''destination'', destination)]"

definition mock_restaurant_search :: "pyval \<Rightarrow> pyval" where
  "mock_restaurant_search destination =
     PyDict [
       (''restaurants'', PyList [
          PyDict [(''name'', PyStr ''The Local Bistro''), (''cuisine'', PyStr ''Local/Fusion''),
                  (''rating'', PyStr ''4.7/5''), (''price_range'', PyStr ''$$'')],
          PyDict [(''name'', PyStr ''Seaside Grill''), (''cuisine'', PyStr ''Seafood''),
                  (''rating'', PyStr ''4.5/5''), (''price_range'', PyStr ''$$$'')]]),
       (''destination'', destination)]"

section \<open>The outside world: text generation, serialisation, the console\<close>

text \<open>
  Each agent builds a prompt template and runs
  \<^verbatim>\<open>(prompt | llm | StrOutputParser()).invoke(variables)\<close>. The templates are fixed texts;
  they are named here as the source names its variables.
\<close>

datatype prompt =
    flight_prompt | hotel_prompt | events_prompt | restaurant_prompt
  | attractions_prompt | social_places_prompt | consolidation_prompt
  | modification_prompt

text \<open>
  The collaborators the code calls but does not define: the language model behind
  \<^verbatim>\<open>chain.invoke\<close> (its answer may differ from call to call, so it also sees how many
  calls came before), \<^verbatim>\<open>json.dumps\<close>, and the answers typed at the console to
  \<^verbatim>\<open>Prompt.ask\<close> and \<^verbatim>\<open>Confirm.ask\<close>, numbered in the order they are asked for.
\<close>

record env =
  llm :: "nat \<Rightarrow> prompt \<Rightarrow> (string \<times> pyval) list \<Rightarrow> error + string"
  json_dumps :: "pyval \<Rightarrow> string"
  prompt_ask :: "nat \<Rightarrow> string"
  confirm_ask :: "nat \<Rightarrow> bool"

text \<open>
  What the program has done to the outside so far: the calls of \<^verbatim>\<open>chain.invoke\<close> in
  order, each with its template and its variable mapping, and how many answers it has
  read from \<^verbatim>\<open>Prompt.ask\<close> and from \<^verbatim>\<open>Confirm.ask\<close>.
\<close>

record world =
  llm_calls :: "(prompt \<times> (string \<times> pyval) list) list"
  asked :: nat
  confirmed :: nat

definition invoke ::
  "env \<Rightarrow> world \<Rightarrow> prompt \<Rightarrow> (string \<times> pyval) list \<Rightarrow> (error + string) \<times> world" where
  "invoke ev w p vars =
     (llm ev (length (llm_calls w)) p vars, w\<lparr>llm_calls := llm_calls w @ [(p, vars)]\<rparr>)"

section \<open>The gather agents and the consolidation (parallel\_agents.py)\<close>

definition flight_agent :: "env \<Rightarrow> world \<Rightarrow> travel_state \<Rightarrow> (error + travel_state) \<times> world" where
  "flight_agent ev w state =
     (case getitem state ''destination'' of Inl e \<Rightarrow> (Inl e, w) | Inr destination \<Rightarrow>
      (case getitem state ''dates'' of Inl e \<Rightarrow> (Inl e, w) | Inr dates \<Rightarrow>
      (case getitem state ''budget'' of Inl e \<Rightarrow> (Inl e, w) | Inr budget \<Rightarrow>
      let flight_data = mock_flight_search destination dates budget in
      (case invoke ev w flight_prompt
             [(''destination'', destination), (''dates'', dates), (''budget'', budget),
              (''results'', PyStr (json_dumps ev flight_data))] of
        (Inl e, w') \<Rightarrow> (Inl e, w')
      | (Inr flight_analysis, w') \<Rightarrow>
          (Inr [''flight_results'' \<mapsto>
                  PyDict [(''data'', flight_data), (''analysis'', PyStr flight_analysis)]],
           w')))))"

definition hotel_agent :: "env \<Rightarrow> world \<Rightarrow> travel_state \<Rightarrow> (error + travel_state) \<times> world" where
  "hotel_agent ev w state =
     (case getitem state ''destination'' of Inl e \<Rightarrow> (Inl e, w) | Inr destination \<Rightarrow>
      (case getitem state ''dates'' of Inl e \<Rightarrow> (Inl e, w) | Inr dates \<Rightarrow>
      (case getitem state ''budget'' of Inl e \<Rightarrow> (Inl e, w) | Inr budget \<Rightarrow>
      let hotel_data = mock_hotel_search destination dates budget in
      (case invoke ev w hotel_prompt
             [(''destination'', destination), (''dates'', dates), (''budget'', budget),
              (''results'', PyStr (json_dumps ev hotel_data))] of
        (Inl e, w') \<Rightarrow> (Inl e, w')
      | (Inr hotel_analysis, w') \<Rightarrow>
          (Inr [''hotel_results'' \<mapsto>
                  PyDict [(''data'', hotel_data), (''analysis'', PyStr hotel_analysis)]],
           w')))))"

definition events_agent :: "env \<Rightarrow> world \<Rightarrow> travel_state \<Rightarrow> (error + travel_state) \<times> world" where
  "events_agent ev w state =
     (case getitem state ''destination'' of Inl e \<Rightarrow> (Inl e, w) | Inr destination \<Rightarrow>
      (case getitem state ''dates'' of Inl e \<Rightarrow> (Inl e, w) | Inr dates \<Rightarrow>
      let events_data = mock_events_search destination dates in
      (case invoke ev w events_prompt
             [(''destination'', destination), (''dates'', dates),
              (''results'', PyStr (json_dumps ev events_data))] of
        (Inl e, w') \<Rightarrow> (Inl e, w')
      | (Inr events_analysis, w') \<Rightarrow>
          (Inr [''events_results'' \<mapsto>
                  PyDict [(''data'', events_data), (''analysis'', PyStr events_analysis)]],
           w'))))"

definition restaurant_agent :: "env \<Rightarrow> world \<Rightarrow> travel_state \<Rightarrow> (error + travel_state) \<times> world" where
  "restaurant_agent ev w state =
     (case getitem state ''destination'' of Inl e \<Rightarrow> (Inl e, w) | Inr destination \<Rightarrow>
      let restaurant_data = mock_restaurant_search destination in
      (case getitem state ''budget'' of Inl e \<Rightarrow> (Inl e, w) | Inr budget \<Rightarrow>
      (case invoke ev w restaurant_prompt
             [(''destination'', destination), (''budget'', budget),
              (''results'', PyStr (json_dumps ev restaurant_data))] of
        (Inl e, w') \<Rightarrow> (Inl e, w')
      | (Inr restaurant_analysis, w') \<Rightarrow>
          (Inr [''restaurant_results'' \<mapsto>
                  PyDict [(''data'', restaurant_data),
                          (''analysis'', PyStr restaurant_analysis)]],
           w'))))"

definition attractions_agent :: "env \<Rightarrow> world \<Rightarrow> travel_state \<Rightarrow> (error + travel_state) \<times> world" where
  "attractions_agent ev w state =
     (case getitem state ''destination'' of Inl e \<Rightarrow> (Inl e, w) | Inr destination \<Rightarrow>
      (case getitem state ''dates'' of Inl e \<Rightarrow> (Inl e, w) | Inr dates \<Rightarrow>
      (case getitem state ''budget'' of Inl e \<Rightarrow> (Inl e, w) | Inr budget \<Rightarrow>
      (case invoke ev w attractions_prompt
             [(''destination'', destination), (''dates'', dates), (''budget'', budget)] of
        (Inl e, w') \<Rightarrow> (Inl e, w')
      | (Inr attractions_analysis, w') \<Rightarrow>
          (Inr [''attractions_results'' \<mapsto>
                  PyDict [(''data'', PyDict [(''llm_generated'', PyBool True)]),
                          (''analysis'', PyStr attractions_analysis)]],
           w')))))"

definition social_places_agent :: "env \<Rightarrow> world \<Rightarrow> travel_state \<Rightarrow> (error + travel_state) \<times> world" where
  "social_places_agent ev w state =
     (case getitem state ''destination'' of Inl e \<Rightarrow> (Inl e, w) | Inr destination \<Rightarrow>
      (case getitem state ''dates'' of Inl e \<Rightarrow> (Inl e, w) | Inr dates \<Rightarrow>
      (case getitem state ''budget'' of Inl e \<Rightarrow> (Inl e, w) | Inr budget \<Rightarrow>
      (case invoke ev w social_places_prompt
             [(''destination'', destination), (''dates'', dates), (''budget'', budget)] of
        (Inl e, w') \<Rightarrow> (Inl e, w')
      | (Inr social_places_analysis, w') \<Rightarrow>
          (Inr [''social_places_results'' \<mapsto>
                  PyDict [(''data'', PyDict [(''llm_generated'', PyBool True)]),
                          (''analysis'', PyStr social_places_analysis)]],
           w')))))"

text \<open>\<^verbatim>\<open>state[field]["analysis"]\<close>: two subscriptions, each of which can raise.\<close>

definition analysis_of :: "travel_state \<Rightarrow> string \<Rightarrow> error + pyval" where
  "analysis_of state field =
     (case getitem state field of Inl e \<Rightarrow> Inl e | Inr r \<Rightarrow> subscript r ''analysis'')"

text \<open>
  Python evaluates the nine values of the dictionary literal from top to bottom before
  it calls \<^verbatim>\<open>chain.invoke\<close>, so the first value that cannot be read decides the error and
  no text is generated.
\<close>

definition consolidate_plan :: "env \<Rightarrow> world \<Rightarrow> travel_state \<Rightarrow> (error + travel_state) \<times> world" where
  "consolidate_plan ev w state =
     (case getitem state ''destination'' of Inl e \<Rightarrow> (Inl e, w) | Inr destination \<Rightarrow>
      (case getitem state ''dates'' of Inl e \<Rightarrow> (Inl e, w) | Inr dates \<Rightarrow>
      (case getitem state ''budget'' of Inl e \<Rightarrow> (Inl e, w) | Inr budget \<Rightarrow>
      (case analysis_of state ''flight_results'' of Inl e \<Rightarrow> (Inl e, w) | Inr flights \<Rightarrow>
      (case analysis_of state ''hotel_results'' of Inl e \<Rightarrow> (Inl e, w) | Inr hotels \<Rightarrow>
      (case analysis_of state ''events_results'' of Inl e \<Rightarrow> (Inl e, w) | Inr events \<Rightarrow>
      (case analysis_of state ''restaurant_results'' of Inl e \<Rightarrow> (Inl e, w)
      | Inr restaurants \<Rightarrow>
      (case analysis_of state ''attractions_results'' of Inl e \<Rightarrow> (Inl e, w)
      | Inr attractions \<Rightarrow>
      (case analysis_of state ''social_places_results'' of Inl e \<Rightarrow> (Inl e, w)
      | Inr social_places \<Rightarrow>
      (case invoke ev w consolidation_prompt
             [(''destination'', destination), (''dates'', dates), (''budget'', budget),
              (''flights'', flights), (''hotels'', hotels), (''events'', events),
              (''restaurants'', restaurants), (''attractions'', attractions),
              (''social_places'', social_places)] of
        (Inl e, w') \<Rightarrow> (Inl e, w')
      | (Inr final_plan, w') \<Rightarrow> (Inr [''final_plan'' \<mapsto> PyStr final_plan], w')))))))))))"

text \<open>The six gather agents, each with the state key it writes.\<close>

definition gather_agents ::
  "((env \<Rightarrow> world \<Rightarrow> travel_state \<Rightarrow> (error + travel_state) \<times> world) \<times> string) list" where
  "gather_agents =
     [(flight_agent, ''flight_results''), (hotel_agent, ''hotel_results''),
      (events_agent, ''events_results''), (restaurant_agent, ''restaurant_results''),
      (attractions_agent, ''attractions_results''),
      (social_places_agent, ''social_places_results'')]"

definition result_fields :: "string list" where
  "result_fields =
     [''flight_results'', ''hotel_results'', ''events_results'', ''restaurant_results'',
      ''attractions_results'', ''social_places_results'']"

section \<open>The human approval node (main.py)\<close>

text \<open>
  \<^verbatim>\<open>str.lower\<close> and \<^verbatim>\<open>str.strip\<close>, for strings whose characters are code points
  below 256: a \<open>char\<close> stands for the code point of its number. In that range Python
  lowers the letters \<^verbatim>\<open>A\<close> to \<^verbatim>\<open>Z\<close> and the code points 192 to 222 other than the
  multiplication sign 215, each by adding 32, and strips the white space listed in
  \<open>py_isspace\<close> from both ends.
\<close>

definition py_isspace :: "char \<Rightarrow> bool" where
  "py_isspace c \<longleftrightarrow>
     of_char c \<in> set [9, 10, 11, 12, 13, 28, 29, 30, 31, 32, 133, 160 :: nat]"

definition lower_char :: "char \<Rightarrow> char" where
  "lower_char c =
     (let n = of_char c :: nat
      in if (65 \<le> n \<and> n \<le> 90) \<or> (192 \<le> n \<and> n \<le> 222 \<and> n \<noteq> 215)
         then char_of (n + 32) else c)"

definition py_lower :: "string \<Rightarrow> string" where
  "py_lower s = map lower_char s"

definition py_strip :: "string \<Rightarrow> string" where
  "py_strip s = rev (dropWhile py_isspace (rev (dropWhile py_isspace s)))"

text \<open>
  The \<^verbatim>\<open>while True\<close> loop of \<^verbatim>\<open>human_approval_agent\<close>. Each round reads one answer from
  \<^verbatim>\<open>Prompt.ask\<close>, lowers and strips it, and compares it with the three pairs of accepted
  words; any other answer starts the next round. The loop has no bound, so the result is
  an \<open>option\<close>: \<open>None\<close> is a run that asks forever. Printing to the console is not
  modelled. In the modify branch the feedback is a second answer of \<^verbatim>\<open>Prompt.ask\<close>, and
  \<^verbatim>\<open>state["final_plan"]\<close> is the value read before the loop, the state being unchanged.
\<close>

partial_function (option) approval_loop ::
  "env \<Rightarrow> world \<Rightarrow> pyval \<Rightarrow> ((error + travel_state) \<times> world) option" where
  "approval_loop ev w final_plan =
     (let approval = py_strip (py_lower (prompt_ask ev (asked w)));
          w1 = w\<lparr>asked := Suc (asked w)\<rparr>
      in if approval \<in> set [''yes'', ''y''] then
           Some (Inr [''human_approved'' \<mapsto> PyBool True], w1)
         else if approval \<in> set [''no'', ''n''] then
           Some (Inr [''human_approved'' \<mapsto> PyBool False], w1)
         else if approval \<in> set [''modify'', ''m''] then
           (let feedback = py_strip (prompt_ask ev (asked w1));
                w2 = w1\<lparr>asked := Suc (asked w1)\<rparr>
            in case invoke ev w2 modification_prompt
                      [(''original_plan'', final_plan), (''feedback'', PyStr feedback)] of
                 (Inl e, w3) \<Rightarrow> Some (Inl e, w3)
               | (Inr revised_plan, w3) \<Rightarrow>
                   (let final_approval = confirm_ask ev (confirmed w3);
                        w4 = w3\<lparr>confirmed := Suc (confirmed w3)\<rparr>
                    in if final_approval then
                         Some (Inr [''final_plan'' \<mapsto> PyStr revised_plan,
                                    ''human_approved'' \<mapsto> PyBool True], w4)
                       else
                         Some (Inr [''final_plan'' \<mapsto> PyStr revised_plan,
                                    ''human_approved'' \<mapsto> PyBool False], w4)))
         else approval_loop ev w1 final_plan)"

text \<open>
  Before the loop the agent prints the request and the plan, reading
  \<^verbatim>\<open>state['destination']\<close>, \<^verbatim>\<open>state['dates']\<close>, \<^verbatim>\<open>state['budget']\<close> and
  \<^verbatim>\<open>state["final_plan"]\<close> in this order.
\<close>

definition human_approval_agent ::
  "env \<Rightarrow> world \<Rightarrow> travel_state \<Rightarrow> ((error + travel_state) \<times> world) option" where
  "human_approval_agent ev w state =
     (case getitem state ''destination'' of Inl e \<Rightarrow> Some (Inl e, w) | Inr destination \<Rightarrow>
      (case getitem state ''dates'' of Inl e \<Rightarrow> Some (Inl e, w) | Inr dates \<Rightarrow>
      (case getitem state ''budget'' of Inl e \<Rightarrow> Some (Inl e, w) | Inr budget \<Rightarrow>
      (case getitem state ''final_plan'' of Inl e \<Rightarrow> Some (Inl e, w) | Inr final_plan \<Rightarrow>
         approval_loop ev w final_plan))))"

text \<open>The answers that end the loop: the three words and their short forms.\<close>

definition valid_choice :: "string \<Rightarrow> bool" where
  "valid_choice answer \<longleftrightarrow>
     py_strip (py_lower answer) \<in> set [''yes'', ''y'', ''no'', ''n'', ''modify'', ''m'']"


section \<open>The workflow graph (main.py)\<close>

text \<open>
  A node function takes the shared state and returns a patch, an error, or (the
  interactive node only) nothing at all.
\<close>

type_synonym node_fn =
  "env \<Rightarrow> world \<Rightarrow> travel_state \<Rightarrow> ((error + travel_state) \<times> world) option"

text \<open>A node function that always returns, as the gather agents and the consolidation do.\<close>

definition total ::
  "(env \<Rightarrow> world \<Rightarrow> travel_state \<Rightarrow> (error + travel_state) \<times> world) \<Rightarrow> node_fn" where
  "total agent = (\<lambda>ev w state. Some (agent ev w state))"

text \<open>
  What \<^verbatim>\<open>create_parallelization_workflow\<close> declares before it compiles the graph: the
  nodes of its eight \<^verbatim>\<open>add_node\<close> calls, the entry points of its six
  \<^verbatim>\<open>set_entry_point\<close> calls and the edges of its eight \<^verbatim>\<open>add_edge\<close> calls, each in
  the order of the source. \<open>END\<close> is the library's marker for the end of the graph; it
  is the name of no node.
\<close>

record state_graph =
  nodes :: "(string \<times> node_fn) list"
  entry_points :: "string list"
  edges :: "(string \<times> string) list"

definition END :: string where
  "END = ''__end__''"

definition create_parallelization_workflow :: state_graph where
  "create_parallelization_workflow =
     \<lparr>nodes =
        [(''flight_search'', total flight_agent),
         (''hotel_search'', total hotel_agent),
         (''events_search'', total events_agent),
         (''restaurant_search'', total restaurant_agent),
         (''attractions_search'', total attractions_agent),
         (''social_places_search'', total social_places_agent),
         (''consolidate'', total consolidate_plan),
         (''human_approval'', human_approval_agent)],
      entry_points =
        [''flight_search'', ''hotel_search'', ''events_search'', ''restaurant_search'',
         ''attractions_search'', ''social_places_search''],
      edges =
        [(''flight_search'', ''consolidate''),
         (''hotel_search'', ''consolidate''),
         (''events_search'', ''consolidate''),
         (''restaurant_search'', ''consolidate''),
         (''attractions_search'', ''consolidate''),
         (''social_places_search'', ''consolidate''),
         (''consolidate'', ''human_approval''),
         (''human_approval'', END)]\<rparr>"

definition gather_nodes :: "string list" where
  "gather_nodes =
     [''flight_search'', ''hotel_search'', ''events_search'', ''restaurant_search'',
      ''attractions_search'', ''social_places_search'']"

definition request_fields :: "string list" where
  "request_fields = [''destination'', ''dates'', ''budget'']"

section \<open>Merging patches and running the graph\<close>

text \<open>
  Modelled from the spec: the merge of a node's patch into the shared state is done by
  the graph library, which is not part of the sources. Section 4.4 of the
  specification: a shallow union; every key in the patch overwrites the same key in the
  shared state, keys not present in the patch are left untouched.
\<close>

definition merge :: "travel_state \<Rightarrow> travel_state \<Rightarrow> travel_state" where
  "merge state patch = (\<lambda>k. case patch k of Some v \<Rightarrow> Some v | None \<Rightarrow> state k)"

text \<open>
  Modelled from the spec: the scheduler that runs the compiled graph is the graph
  library's, which is not part of the sources. Section 4.5 of the specification: run all
  entry nodes; a node that is no entry node needs a predecessor; a node becomes eligible
  once all of its predecessors have completed and merged; eligible nodes may run concurrently; a node with several predecessors runs
  once, after the last of them merges. Sections 5 and 7: a node that fails never
  merges, the first failure is what the caller gets, and whether siblings of a failed
  node still finish is left open.

  Concurrency is interleaving: the scheduler takes one action at a time, either starting
  an eligible node on the shared state as it is now, or completing a node that has
  returned, which merges its patch or records its error. Between the start and the
  completion of a node any other actions may happen. Which action comes next is not
  determined; a run is given by the list of actions taken.
\<close>

datatype event = Invoked string | Merged string | Failed string error

datatype action = Run string | Complete string

record execution =
  shared :: travel_state
  outside :: world
  pending :: "(string \<times> (error + travel_state)) list"
  started :: "string list"
  merged :: "string list"
  failure :: "error option"
  history :: "event list"

definition initial :: "travel_state \<Rightarrow> world \<Rightarrow> execution" where
  "initial state w =
     \<lparr>shared = state, outside = w, pending = [], started = [], merged = [],
      failure = None, history = []\<rparr>"

definition predecessors :: "state_graph \<Rightarrow> string \<Rightarrow> string list" where
  "predecessors g n = map fst (filter (\<lambda>(a, b). b = n) (edges g))"

definition eligible :: "state_graph \<Rightarrow> execution \<Rightarrow> string \<Rightarrow> bool" where
  "eligible g c n \<longleftrightarrow>
     n \<notin> set (started c) \<and>
     (n \<in> set (entry_points g) \<or> predecessors g n \<noteq> []) \<and>
     list_all (\<lambda>p. p \<in> set (merged c)) (predecessors g n)"

fun step :: "env \<Rightarrow> state_graph \<Rightarrow> execution \<Rightarrow> action \<Rightarrow> execution option" where
  "step ev g c (Run n) =
     (if eligible g c n then
        (case map_of (nodes g) n of
           None \<Rightarrow> None
         | Some f \<Rightarrow>
             (case f ev (outside c) (shared c) of
                None \<Rightarrow> None
              | Some (r, w') \<Rightarrow>
                  Some (c\<lparr>outside := w', pending := pending c @ [(n, r)],
                          started := started c @ [n],
                          history := history c @ [Invoked n]\<rparr>)))
      else None)"
| "step ev g c (Complete n) =
     (case map_of (pending c) n of
        None \<Rightarrow> None
      | Some (Inr patch) \<Rightarrow>
          Some (c\<lparr>shared := merge (shared c) patch,
                  pending := filter (\<lambda>(m, r). m \<noteq> n) (pending c),
                  merged := merged c @ [n],
                  history := history c @ [Merged n]\<rparr>)
      | Some (Inl e) \<Rightarrow>
          Some (c\<lparr>pending := filter (\<lambda>(m, r). m \<noteq> n) (pending c),
                  failure := (case failure c of None \<Rightarrow> Some e | Some e' \<Rightarrow> Some e'),
                  history := history c @ [Failed n e]\<rparr>))"

fun run :: "env \<Rightarrow> state_graph \<Rightarrow> execution \<Rightarrow> action list \<Rightarrow> execution option" where
  "run ev g c [] = Some c"
| "run ev g c (a # as) =
     (case step ev g c a of None \<Rightarrow> None | Some c' \<Rightarrow> run ev g c' as)"

text \<open>
  What the caller of the graph gets from a run that has stopped in \<open>c\<close>: the first
  failure if a node failed, the shared state once a node with an edge to \<open>END\<close> has
  merged, and nothing while the run is still under way.
\<close>

definition outcome :: "state_graph \<Rightarrow> execution \<Rightarrow> (error + travel_state) option" where
  "outcome g c =
     (case failure c of
        Some e \<Rightarrow> Some (Inl e)
      | None \<Rightarrow>
          if list_ex (\<lambda>n. n \<in> set (merged c)) (predecessors g END)
          then Some (Inr (shared c)) else None)"


section \<open>Sample states and stubbed collaborators (tests/conftest.py)\<close>

text \<open>
  The fixtures of the test suite: the sample request, the state with all six results
  populated, and stubs for the outside world.
\<close>

definition sample_travel_state :: travel_state where
  "sample_travel_state =
     [''destination'' \<mapsto> PyStr ''Barcelona'',
      ''dates'' \<mapsto> PyStr ''March 15-20, 2024'',
      ''budget'' \<mapsto> PyStr ''$2000'',
      ''flight_results'' \<mapsto> PyDict [],
      ''hotel_results'' \<mapsto> PyDict [],
      ''events_results'' \<mapsto> PyDict [],
      ''restaurant_results'' \<mapsto> PyDict [],
      ''attractions_results'' \<mapsto> PyDict [],
      ''social_places_results'' \<mapsto> PyDict [],
      ''final_plan'' \<mapsto> PyStr [],
      ''human_approved'' \<mapsto> PyBool False]"

definition complete_travel_state :: travel_state where
  "complete_travel_state =
     [''destination'' \<mapsto> PyStr ''Barcelona'',
      ''dates'' \<mapsto> PyStr ''March 15-20, 2024'',
      ''budget'' \<mapsto> PyStr ''$2000'',
      ''flight_results'' \<mapsto>
        PyDict [(''data'', PyDict [(''flights'',
                   PyList [PyDict [(''airline'', PyStr ''Test Air''),
                                   (''price'', PyStr ''$450'')]])]),
                (''analysis'', PyStr ''Flight analysis'')],
      ''hotel_results'' \<mapsto>
        PyDict [(''data'', PyDict [(''hotels'',
                   PyList [PyDict [(''name'', PyStr ''Test Hotel''),
                                   (''price'', PyStr ''$150/night'')]])]),
                (''analysis'', PyStr ''Hotel analysis'')],
      ''events_results'' \<mapsto>
        PyDict [(''data'', PyDict [(''events'',
                   PyList [PyDict [(''name'', PyStr ''Test Event''),
                                   (''price'', PyStr ''Free'')]])]),
                (''analysis'', PyStr ''Events analysis'')],
      ''restaurant_results'' \<mapsto>
        PyDict [(''data'', PyDict [(''restaurants'',
                   PyList [PyDict [(''name'', PyStr ''Test Restaurant''),
                                   (''cuisine'', PyStr ''Local'')]])]),
                (''analysis'', PyStr ''Restaurant analysis'')],
      ''attractions_results'' \<mapsto>
        PyDict [(''data'', PyDict [(''llm_generated'', PyBool True)]),
                (''analysis'', PyStr ''Attractions analysis'')],
      ''social_places_results'' \<mapsto>
        PyDict [(''data'', PyDict [(''llm_generated'', PyBool True)]),
                (''analysis'', PyStr ''Social places analysis'')],
      ''final_plan'' \<mapsto> PyStr [],
      ''human_approved'' \<mapsto> PyBool False]"

definition fresh_world :: world where
  "fresh_world = \<lparr>llm_calls = [], asked = 0, confirmed = 0\<rparr>"

text \<open>A model that answers every call with the same text, and a user who types \<open>answers\<close>.\<close>

definition stub_env :: "string \<Rightarrow> string list \<Rightarrow> bool \<Rightarrow> env" where
  "stub_env reply answers yes =
     \<lparr>llm = (\<lambda>n p vars. Inr reply),
      json_dumps = (\<lambda>v. ''{}''),
      prompt_ask = (\<lambda>n. if n < length answers then answers ! n else ''yes''),
      confirm_ask = (\<lambda>n. yes)\<rparr>"

text \<open>A model whose provider is down.\<close>

definition failing_env :: env where
  "failing_env =
     \<lparr>llm = (\<lambda>n p vars. Inl GenerationError),
      json_dumps = (\<lambda>v. ''{}''),
      prompt_ask = (\<lambda>n. ''yes''),
      confirm_ask = (\<lambda>n. True)\<rparr>"


text \<open>
  One possible run of the whole graph: the six gather nodes start and complete in an
  interleaved order, then the consolidation and the approval run.
\<close>

definition full_schedule :: "action list" where
  "full_schedule =
     [Run ''flight_search'', Run ''hotel_search'', Complete ''flight_search'',
      Run ''events_search'', Run ''restaurant_search'', Run ''attractions_search'',
      Complete ''events_search'', Run ''social_places_search'',
      Complete ''hotel_search'', Complete ''social_places_search'',
      Complete ''restaurant_search'', Complete ''attractions_search'',
      Run ''consolidate'', Complete ''consolidate'',
      Run ''human_approval'', Complete ''human_approval'']"


section \<open>Bookkeeping of a run\<close>

text \<open>
  What the scheduler's records say about each other in every run: the history holds no
  event twice; a node is started when and only when its invocation is in the history,
  merged when and only when its merge is; a node that has returned and waits for its
  completion has been started and has neither merged nor failed; a failed node never
  merges; and a failure is recorded exactly when a node has failed.
\<close>

definition consistent :: "execution \<Rightarrow> bool" where
  "consistent c \<longleftrightarrow>
     distinct (history c) \<and>
     (\<forall>n. n \<in> set (started c) \<longleftrightarrow> Invoked n \<in> set (history c)) \<and>
     (\<forall>n. n \<in> set (merged c) \<longleftrightarrow> Merged n \<in> set (history c)) \<and>
     (\<forall>n. n \<in> fst ` set (pending c) \<longrightarrow> n \<in> set (started c)) \<and>
     (\<forall>n. n \<in> fst ` set (pending c) \<longrightarrow> n \<notin> set (merged c)) \<and>
     (\<forall>n e. n \<in> fst ` set (pending c) \<longrightarrow> Failed n e \<notin> set (history c)) \<and>
     (\<forall>n. n \<in> set (merged c) \<longrightarrow> n \<in> set (started c)) \<and>
     (\<forall>n e. Failed n e \<in> set (history c) \<longrightarrow> n \<in> set (started c)) \<and>
     (\<forall>n e. Failed n e \<in> set (history c) \<longrightarrow> n \<notin> set (merged c)) \<and>
     (failure c = None \<longleftrightarrow> (\<forall>n e. Failed n e \<notin> set (history c)))"

text \<open>
  The order of the events: when a node is invoked, each of its predecessors has merged
  before; a node merges or fails only after its invocation.
\<close>

definition ordered :: "state_graph \<Rightarrow> execution \<Rightarrow> bool" where
  "ordered g c \<longleftrightarrow>
     (\<forall>pre post n. history c = pre @ Invoked n # post \<longrightarrow>
        list_all (\<lambda>p. Merged p \<in> set pre) (predecessors g n)) \<and>
     (\<forall>pre post n. history c = pre @ Merged n # post \<longrightarrow> Invoked n \<in> set pre) \<and>
     (\<forall>pre post n e. history c = pre @ Failed n e # post \<longrightarrow> Invoked n \<in> set pre)"


section \<open>The mock search providers ignore the budget\<close>

text \<open>
  Claim C10. The mock flight search and the mock hotel search return the same payload
  for any two budgets, the destination and the dates being the same; the mock restaurant
  search takes the destination only, so neither dates nor budget can reach its result:
  by its type, and in the one place that calls it (\<open>restaurant_agent\<close>) the payload
  stored under \<open>data\<close> is the same for any two states that agree on the destination.
\<close>

theorem mock_search_budget_independent:
  "mock_flight_search destination dates b1 = mock_flight_search destination dates b2 \<and>
   mock_hotel_search destination dates b1 = mock_hotel_search destination dates b2 \<and>
   mock_restaurant_search destination =
     PyDict [(''restaurants'', PyList [
        PyDict [(''name'', PyStr ''The Local Bistro''), (''cuisine'', PyStr ''Local/Fusion''),
                (''rating'', PyStr ''4.7/5''), (''price_range'', PyStr ''$$'')],
        PyDict [(''name'', PyStr ''Seaside Grill''), (''cuisine'', PyStr ''Seafood''),
                (''rating'', PyStr ''4.5/5''), (''price_range'', PyStr ''$$$'')]]),
      (''destination'', destination)]"
  by (simp add: mock_flight_search_def mock_hotel_search_def mock_restaurant_search_def)

section \<open>The gather agents\<close>

lemmas agent_defs =
  flight_agent_def hotel_agent_def events_agent_def restaurant_agent_def
  attractions_agent_def social_places_agent_def

lemma gather_cases:
  assumes "(agent, key) \<in> set gather_agents"
  shows "(agent = flight_agent \<and> key = ''flight_results'') \<or>
         (agent = hotel_agent \<and> key = ''hotel_results'') \<or>
         (agent = events_agent \<and> key = ''events_results'') \<or>
         (agent = restaurant_agent \<and> key = ''restaurant_results'') \<or>
         (agent = attractions_agent \<and> key = ''attractions_results'') \<or>
         (agent = social_places_agent \<and> key = ''social_places_results'')"
  using assms unfolding gather_agents_def by simp

text \<open>With the request present, an agent's result is decided by the model's answer.\<close>

lemma gather_success:
  assumes "(agent, key) \<in> set gather_agents"
    and "state ''destination'' = Some d" "state ''dates'' = Some t" "state ''budget'' = Some b"
    and "\<forall>p vars. llm ev (length (llm_calls w)) p vars = Inr a"
  shows "\<exists>data p vars. agent ev w state =
           (Inr [key \<mapsto> PyDict [(''data'', data), (''analysis'', PyStr a)]],
            w\<lparr>llm_calls := llm_calls w @ [(p, vars)]\<rparr>)"
  using gather_cases [OF assms(1)] assms(2-5)
  apply (elim disjE conjE)
       apply (simp_all add: agent_defs getitem_def invoke_def Let_def)
       apply blast+
  done

lemma gather_failure:
  assumes "(agent, key) \<in> set gather_agents"
    and "state ''destination'' = Some d" "state ''dates'' = Some t" "state ''budget'' = Some b"
    and "\<forall>p vars. llm ev (length (llm_calls w)) p vars = Inl e"
  shows "\<exists>p vars. agent ev w state = (Inl e, w\<lparr>llm_calls := llm_calls w @ [(p, vars)]\<rparr>)"
  using gather_cases [OF assms(1)] assms(2-5)
  apply (elim disjE conjE)
       apply (simp_all add: agent_defs getitem_def invoke_def Let_def)
       apply blast+
  done

text \<open>Whatever the state and the outside world, a returned patch has the agent's key only.\<close>

lemma gather_dom:
  assumes "(agent, key) \<in> set gather_agents"
    and "agent ev w state = (Inr patch, w')"
  shows "dom patch = {key}"
  using gather_cases [OF assms(1)] assms(2)
  apply (elim disjE conjE)
       apply (auto simp add: agent_defs getitem_def invoke_def Let_def
                   split: sum.splits option.splits if_splits)
  done

text \<open>
  Claim C1. On a state that holds strings under \<open>destination\<close>, \<open>dates\<close> and
  \<open>budget\<close>, and with a model whose call succeeds with a non-empty text, each of the six
  gather agents returns a patch with exactly one key, its own results field; the value
  there is a dictionary with an entry \<open>data\<close> and an entry \<open>analysis\<close> that is a
  non-empty string (the model's text). The agent has called the model once.
\<close>

theorem gather_agent_patch:
  assumes "(agent, key) \<in> set gather_agents"
    and "state ''destination'' = Some (PyStr d)"
    and "state ''dates'' = Some (PyStr t)"
    and "state ''budget'' = Some (PyStr b)"
    and "\<forall>p vars. llm ev (length (llm_calls w)) p vars = Inr a"
    and "a \<noteq> []"
  shows "\<exists>patch r w'. agent ev w state = (Inr patch, w') \<and>
           dom patch = {key} \<and> patch key = Some (PyDict r) \<and>
           map_of r ''data'' \<noteq> None \<and> map_of r ''analysis'' = Some (PyStr a) \<and>
           a \<noteq> [] \<and> length (llm_calls w') = Suc (length (llm_calls w))"
proof -
  from gather_success [OF assms(1-5)] obtain data p vars where
    run: "agent ev w state =
            (Inr [key \<mapsto> PyDict [(''data'', data), (''analysis'', PyStr a)]],
             w\<lparr>llm_calls := llm_calls w @ [(p, vars)]\<rparr>)"
    by blast
  show ?thesis
    unfolding run using assms(6) by simp
qed

theorem gather_agent_patch_witness:
  "\<exists>patch r w'.
     flight_agent (stub_env ''Mock analysis result'' [] True) fresh_world sample_travel_state
       = (Inr patch, w') \<and>
     dom patch = {''flight_results''} \<and> patch ''flight_results'' = Some (PyDict r) \<and>
     map_of r ''data'' \<noteq> None \<and>
     map_of r ''analysis'' = Some (PyStr ''Mock analysis result'') \<and>
     length (llm_calls w') = 1"
proof -
  have mem: "(flight_agent, ''flight_results'') \<in> set gather_agents"
    by (simp add: gather_agents_def)
  have req: "sample_travel_state ''destination'' = Some (PyStr ''Barcelona'')"
    "sample_travel_state ''dates'' = Some (PyStr ''March 15-20, 2024'')"
    "sample_travel_state ''budget'' = Some (PyStr ''$2000'')"
    by (simp_all add: sample_travel_state_def)
  have gen: "\<forall>p vars. llm (stub_env ''Mock analysis result'' [] True)
                (length (llm_calls fresh_world)) p vars = Inr ''Mock analysis result''"
    by (simp add: stub_env_def)
  have ne: "''Mock analysis result'' \<noteq> []"
    by simp
  from gather_agent_patch [OF mem req gen ne] show ?thesis
    by (simp add: fresh_world_def)
qed


section \<open>The consolidation\<close>

text \<open>
  With the request and all six analyses readable, the consolidation calls the model
  once, with the nine variables, and its result is decided by the model's answer.
\<close>

lemma consolidate_run:
  assumes "state ''destination'' = Some d" "state ''dates'' = Some t" "state ''budget'' = Some b"
    and "analysis_of state ''flight_results'' = Inr a1"
    and "analysis_of state ''hotel_results'' = Inr a2"
    and "analysis_of state ''events_results'' = Inr a3"
    and "analysis_of state ''restaurant_results'' = Inr a4"
    and "analysis_of state ''attractions_results'' = Inr a5"
    and "analysis_of state ''social_places_results'' = Inr a6"
  shows "consolidate_plan ev w state =
    (case llm ev (length (llm_calls w)) consolidation_prompt
            [(''destination'', d), (''dates'', t), (''budget'', b),
             (''flights'', a1), (''hotels'', a2), (''events'', a3),
             (''restaurants'', a4), (''attractions'', a5), (''social_places'', a6)] of
       Inl e \<Rightarrow> Inl e
     | Inr plan \<Rightarrow> Inr [''final_plan'' \<mapsto> PyStr plan],
     w\<lparr>llm_calls := llm_calls w @ [(consolidation_prompt,
            [(''destination'', d), (''dates'', t), (''budget'', b),
             (''flights'', a1), (''hotels'', a2), (''events'', a3),
             (''restaurants'', a4), (''attractions'', a5), (''social_places'', a6)])]\<rparr>)"
  using assms by (simp add: consolidate_plan_def getitem_def invoke_def split: sum.split)

lemma analysis_of_dict:
  assumes "state f = Some (PyDict r)"
  shows "analysis_of state f =
           (case map_of r ''analysis'' of
              None \<Rightarrow> Inl (KeyError ''analysis'')
            | Some v \<Rightarrow> Inr v)"
  using assms by (simp add: analysis_of_def getitem_def subscript_def)

text \<open>
  Claim C2. On a state with the request present and an analysis string in each of the
  six result fields, \<open>consolidate_plan\<close> calls the model exactly once (the log of calls
  grows by one entry), with the consolidation prompt and a variable mapping of exactly
  the nine keys \<open>destination\<close>, \<open>dates\<close>, \<open>budget\<close>, \<open>flights\<close>, \<open>hotels\<close>,
  \<open>events\<close>, \<open>restaurants\<close>, \<open>attractions\<close>, \<open>social_places\<close>, the last six
  bound to the analysis strings of the corresponding result fields; when that call
  succeeds with a non-empty text, the patch returned has the one key \<open>final_plan\<close>, bound
  to that text.
\<close>

theorem consolidate_plan_once:
  assumes "state ''destination'' = Some d"
    and "state ''dates'' = Some t"
    and "state ''budget'' = Some b"
    and "analysis_of state ''flight_results'' = Inr (PyStr a1)"
    and "analysis_of state ''hotel_results'' = Inr (PyStr a2)"
    and "analysis_of state ''events_results'' = Inr (PyStr a3)"
    and "analysis_of state ''restaurant_results'' = Inr (PyStr a4)"
    and "analysis_of state ''attractions_results'' = Inr (PyStr a5)"
    and "analysis_of state ''social_places_results'' = Inr (PyStr a6)"
    and "vars = [(''destination'', d), (''dates'', t), (''budget'', b),
                 (''flights'', PyStr a1), (''hotels'', PyStr a2), (''events'', PyStr a3),
                 (''restaurants'', PyStr a4), (''attractions'', PyStr a5),
                 (''social_places'', PyStr a6)]"
    and "llm ev (length (llm_calls w)) consolidation_prompt vars = Inr plan"
    and "plan \<noteq> []"
  shows "\<exists>patch w'. consolidate_plan ev w state = (Inr patch, w') \<and>
           llm_calls w' = llm_calls w @ [(consolidation_prompt, vars)] \<and>
           map fst vars = [''destination'', ''dates'', ''budget'', ''flights'', ''hotels'',
                           ''events'', ''restaurants'', ''attractions'', ''social_places''] \<and>
           dom patch = {''final_plan''} \<and>
           patch ''final_plan'' = Some (PyStr plan) \<and> plan \<noteq> []"
proof -
  have "consolidate_plan ev w state =
          (Inr [''final_plan'' \<mapsto> PyStr plan],
           w\<lparr>llm_calls := llm_calls w @ [(consolidation_prompt, vars)]\<rparr>)"
    using assms(11) unfolding assms(10) consolidate_run [OF assms(1-9)] by simp
  then show ?thesis
    using assms(12) by (simp add: assms(10))
qed

lemma complete_travel_state_fields:
  "complete_travel_state ''destination'' = Some (PyStr ''Barcelona'')"
  "complete_travel_state ''dates'' = Some (PyStr ''March 15-20, 2024'')"
  "complete_travel_state ''budget'' = Some (PyStr ''$2000'')"
  "analysis_of complete_travel_state ''flight_results'' = Inr (PyStr ''Flight analysis'')"
  "analysis_of complete_travel_state ''hotel_results'' = Inr (PyStr ''Hotel analysis'')"
  "analysis_of complete_travel_state ''events_results'' = Inr (PyStr ''Events analysis'')"
  "analysis_of complete_travel_state ''restaurant_results'' =
     Inr (PyStr ''Restaurant analysis'')"
  "analysis_of complete_travel_state ''attractions_results'' =
     Inr (PyStr ''Attractions analysis'')"
  "analysis_of complete_travel_state ''social_places_results'' =
     Inr (PyStr ''Social places analysis'')"
  by (simp_all add: complete_travel_state_def analysis_of_def getitem_def subscript_def)

theorem consolidate_plan_once_witness:
  "\<exists>patch w'.
     consolidate_plan (stub_env ''Consolidated plan'' [] True) fresh_world
       complete_travel_state = (Inr patch, w') \<and>
     llm_calls w' =
       [(consolidation_prompt,
         [(''destination'', PyStr ''Barcelona''), (''dates'', PyStr ''March 15-20, 2024''),
          (''budget'', PyStr ''$2000''), (''flights'', PyStr ''Flight analysis''),
          (''hotels'', PyStr ''Hotel analysis''), (''events'', PyStr ''Events analysis''),
          (''restaurants'', PyStr ''Restaurant analysis''),
          (''attractions'', PyStr ''Attractions analysis''),
          (''social_places'', PyStr ''Social places analysis'')])] \<and>
     dom patch = {''final_plan''} \<and>
     patch ''final_plan'' = Some (PyStr ''Consolidated plan'')"
proof -
  have gen: "llm (stub_env ''Consolidated plan'' [] True) (length (llm_calls fresh_world))
               consolidation_prompt
               [(''destination'', PyStr ''Barcelona''),
                (''dates'', PyStr ''March 15-20, 2024''),
                (''budget'', PyStr ''$2000''), (''flights'', PyStr ''Flight analysis''),
                (''hotels'', PyStr ''Hotel analysis''),
                (''events'', PyStr ''Events analysis''),
                (''restaurants'', PyStr ''Restaurant analysis''),
                (''attractions'', PyStr ''Attractions analysis''),
                (''social_places'', PyStr ''Social places analysis'')]
             = Inr ''Consolidated plan''"
    by (simp add: stub_env_def)
  have ne: "''Consolidated plan'' \<noteq> []"
    by simp
  from consolidate_plan_once [OF complete_travel_state_fields refl gen ne]
  show ?thesis
    by (simp add: fresh_world_def)
qed

text \<open>
  Claim C5. When \<open>consolidate_plan\<close> runs on a travel state (the request present, each
  result field a dictionary) in which some result field has no \<open>analysis\<close> entry, as in
  the initial state, where the result fields are empty dictionaries, it fails: the
  subscription \<^verbatim>\<open>state[field]["analysis"]\<close> raises \<open>KeyError ''analysis''\<close>, the absent
  output of a predecessor that the specification calls a missing dependency. The model
  is not called: the outside world is unchanged.
\<close>

theorem consolidate_plan_missing_analysis:
  assumes "state ''destination'' = Some d"
    and "state ''dates'' = Some t"
    and "state ''budget'' = Some b"
    and typed: "\<forall>g \<in> set result_fields. \<exists>r. state g = Some (PyDict r)"
    and f: "f \<in> set result_fields" "state f = Some (PyDict r)" "map_of r ''analysis'' = None"
  shows "consolidate_plan ev w state = (Inl (KeyError ''analysis''), w)"
proof -
  have each: "(\<exists>v. analysis_of state g = Inr v) \<or>
              analysis_of state g = Inl (KeyError ''analysis'')"
    if "g \<in> set result_fields" for g
  proof -
    from typed that obtain r' where "state g = Some (PyDict r')"
      by blast
    then show ?thesis
      by (simp add: analysis_of_dict split: option.split)
  qed
  have miss: "analysis_of state f = Inl (KeyError ''analysis'')"
    using f by (simp add: analysis_of_dict)
  have e1: "(\<exists>v. analysis_of state ''flight_results'' = Inr v) \<or>
            analysis_of state ''flight_results'' = Inl (KeyError ''analysis'')"
    and e2: "(\<exists>v. analysis_of state ''hotel_results'' = Inr v) \<or>
            analysis_of state ''hotel_results'' = Inl (KeyError ''analysis'')"
    and e3: "(\<exists>v. analysis_of state ''events_results'' = Inr v) \<or>
            analysis_of state ''events_results'' = Inl (KeyError ''analysis'')"
    and e4: "(\<exists>v. analysis_of state ''restaurant_results'' = Inr v) \<or>
            analysis_of state ''restaurant_results'' = Inl (KeyError ''analysis'')"
    and e5: "(\<exists>v. analysis_of state ''attractions_results'' = Inr v) \<or>
            analysis_of state ''attractions_results'' = Inl (KeyError ''analysis'')"
    and e6: "(\<exists>v. analysis_of state ''social_places_results'' = Inr v) \<or>
            analysis_of state ''social_places_results'' = Inl (KeyError ''analysis'')"
    by (rule each, simp add: result_fields_def)+
  from f(1) have "f = ''flight_results'' \<or> f = ''hotel_results'' \<or>
      f = ''events_results'' \<or> f = ''restaurant_results'' \<or>
      f = ''attractions_results'' \<or> f = ''social_places_results''"
    by (simp add: result_fields_def)
  then show ?thesis
    using miss e1 e2 e3 e4 e5 e6 assms(1-3)
    by (elim disjE exE) (simp_all add: consolidate_plan_def getitem_def)
qed

theorem consolidate_plan_missing_analysis_witness:
  "consolidate_plan (stub_env ''Consolidated plan'' [] True) fresh_world sample_travel_state
     = (Inl (KeyError ''analysis''), fresh_world)"
proof -
  have req: "sample_travel_state ''destination'' = Some (PyStr ''Barcelona'')"
    "sample_travel_state ''dates'' = Some (PyStr ''March 15-20, 2024'')"
    "sample_travel_state ''budget'' = Some (PyStr ''$2000'')"
    by (simp_all add: sample_travel_state_def)
  have typed: "\<forall>g \<in> set result_fields. \<exists>r. sample_travel_state g = Some (PyDict r)"
    by (simp add: result_fields_def sample_travel_state_def)
  have f: "''hotel_results'' \<in> set result_fields"
    "sample_travel_state ''hotel_results'' = Some (PyDict [])"
    "map_of ([] :: (string \<times> pyval) list) ''analysis'' = None"
    by (simp_all add: result_fields_def sample_travel_state_def)
  show ?thesis
    by (rule consolidate_plan_missing_analysis [OF req typed f])
qed


section \<open>The human approval node\<close>

text \<open>One round of the loop, by the kind of answer it reads.\<close>

lemma approval_loop_yes:
  assumes "py_strip (py_lower (prompt_ask ev (asked w))) \<in> {''yes'', ''y''}"
  shows "approval_loop ev w plan =
           Some (Inr [''human_approved'' \<mapsto> PyBool True], w\<lparr>asked := Suc (asked w)\<rparr>)"
  using assms by (subst approval_loop.simps) (auto simp: Let_def)

lemma approval_loop_no:
  assumes "py_strip (py_lower (prompt_ask ev (asked w))) \<in> {''no'', ''n''}"
  shows "approval_loop ev w plan =
           Some (Inr [''human_approved'' \<mapsto> PyBool False], w\<lparr>asked := Suc (asked w)\<rparr>)"
  using assms by (subst approval_loop.simps) (auto simp: Let_def)

lemma approval_loop_modify:
  assumes "py_strip (py_lower (prompt_ask ev (asked w))) \<in> {''modify'', ''m''}"
  shows "approval_loop ev w plan =
     (case llm ev (length (llm_calls w)) modification_prompt
             [(''original_plan'', plan),
              (''feedback'', PyStr (py_strip (prompt_ask ev (Suc (asked w)))))] of
        Inl e \<Rightarrow>
          Some (Inl e, w\<lparr>asked := Suc (Suc (asked w)),
                  llm_calls := llm_calls w @ [(modification_prompt,
                    [(''original_plan'', plan),
                     (''feedback'', PyStr (py_strip (prompt_ask ev (Suc (asked w)))))])]\<rparr>)
      | Inr revised_plan \<Rightarrow>
          Some (Inr [''final_plan'' \<mapsto> PyStr revised_plan,
                     ''human_approved'' \<mapsto> PyBool (confirm_ask ev (confirmed w))],
                w\<lparr>asked := Suc (Suc (asked w)),
                  llm_calls := llm_calls w @ [(modification_prompt,
                    [(''original_plan'', plan),
                     (''feedback'', PyStr (py_strip (prompt_ask ev (Suc (asked w)))))])],
                  confirmed := Suc (confirmed w)\<rparr>))"
  using assms by (subst approval_loop.simps) (auto simp: Let_def invoke_def split: sum.splits)

lemma approval_loop_skip:
  assumes "\<not> valid_choice (prompt_ask ev (asked w))"
  shows "approval_loop ev w plan = approval_loop ev (w\<lparr>asked := Suc (asked w)\<rparr>) plan"
  using assms by (subst approval_loop.simps) (simp add: valid_choice_def Let_def)

lemma valid_choice_cases:
  "valid_choice s \<longleftrightarrow>
     py_strip (py_lower s) \<in> {''yes'', ''y''} \<or> py_strip (py_lower s) \<in> {''no'', ''n''} \<or>
     py_strip (py_lower s) \<in> {''modify'', ''m''}"
  by (auto simp: valid_choice_def)

lemma approval_loop_valid:
  assumes "valid_choice (prompt_ask ev (asked w))"
  shows "\<exists>r. approval_loop ev w plan = Some r"
  using assms unfolding valid_choice_cases
  by (elim disjE) (simp_all add: approval_loop_yes approval_loop_no approval_loop_modify split: sum.split)

lemma approval_loop_first_valid:
  assumes "asked w \<le> k"
    and "\<forall>j. asked w \<le> j \<and> j < k \<longrightarrow> \<not> valid_choice (prompt_ask ev j)"
  shows "approval_loop ev w plan = approval_loop ev (w\<lparr>asked := k\<rparr>) plan"
  using assms
proof (induction "k - asked w" arbitrary: w)
  case 0
  then have "k = asked w" by simp
  then show ?case by simp
next
  case (Suc n)
  then have lt: "asked w < k" by simp
  with Suc.prems have "\<not> valid_choice (prompt_ask ev (asked w))" by simp
  then have "approval_loop ev w plan = approval_loop ev (w\<lparr>asked := Suc (asked w)\<rparr>) plan"
    by (rule approval_loop_skip)
  also have "\<dots> = approval_loop ev (w\<lparr>asked := Suc (asked w)\<rparr>\<lparr>asked := k\<rparr>) plan"
    using Suc.hyps(2) lt Suc.prems(2) by (intro Suc.hyps(1)) auto
  finally show ?case by simp
qed

lemma approval_loop_returns_valid:
  assumes ret: "approval_loop ev w plan = Some r"
  shows "\<exists>k\<ge>asked w. valid_choice (prompt_ask ev k)"
proof (rule approval_loop.raw_induct [where P = "\<lambda>ev w plan r. \<exists>k\<ge>asked w. valid_choice (prompt_ask ev k)", OF _ ret])
  fix f ev w plan r
  assume IH: "\<And>ev w plan r. f ev w plan = Some r \<Longrightarrow> \<exists>k\<ge>asked w. valid_choice (prompt_ask ev k)"
    and eq: "(let approval = py_strip (py_lower (prompt_ask ev (asked w)));
          w1 = w\<lparr>asked := Suc (asked w)\<rparr>
      in if approval \<in> set [''yes'', ''y''] then
           Some (Inr [''human_approved'' \<mapsto> PyBool True], w1)
         else if approval \<in> set [''no'', ''n''] then
           Some (Inr [''human_approved'' \<mapsto> PyBool False], w1)
         else if approval \<in> set [''modify'', ''m''] then
           (let feedback = py_strip (prompt_ask ev (asked w1));
                w2 = w1\<lparr>asked := Suc (asked w1)\<rparr>
            in case invoke ev w2 modification_prompt
                      [(''original_plan'', plan), (''feedback'', PyStr feedback)] of
                 (Inl e, w3) \<Rightarrow> Some (Inl e, w3)
               | (Inr revised_plan, w3) \<Rightarrow>
                   (let final_approval = confirm_ask ev (confirmed w3);
                        w4 = w3\<lparr>confirmed := Suc (confirmed w3)\<rparr>
                    in if final_approval then
                         Some (Inr [''final_plan'' \<mapsto> PyStr revised_plan,
                                    ''human_approved'' \<mapsto> PyBool True], w4)
                       else
                         Some (Inr [''final_plan'' \<mapsto> PyStr revised_plan,
                                    ''human_approved'' \<mapsto> PyBool False], w4)))
         else f ev w1 plan) = Some r"
  show "\<exists>k\<ge>asked w. valid_choice (prompt_ask ev k)"
  proof (cases "valid_choice (prompt_ask ev (asked w))")
    case True
    then show ?thesis by blast
  next
    case False
    with eq have "f ev (w\<lparr>asked := Suc (asked w)\<rparr>) plan = Some r"
      by (simp add: valid_choice_def Let_def)
    from IH [OF this] obtain k where "Suc (asked w) \<le> k" "valid_choice (prompt_ask ev k)"
      by auto
    then show ?thesis by (intro exI [of _ k]) simp
  qed
qed


lemma human_approval_agent_loop:
  assumes "state ''destination'' = Some d" "state ''dates'' = Some t"
    and "state ''budget'' = Some b" "state ''final_plan'' = Some plan"
  shows "human_approval_agent ev w state = approval_loop ev w plan"
  using assms by (simp add: human_approval_agent_def getitem_def)

text \<open>
  Claim C4. On a state with the request and a final plan, the node is the state machine
  of the specification, decided by the first answer once it is lowered and stripped:
  \<open>yes\<close> (or \<open>y\<close>) returns the patch \<open>{human_approved: True}\<close>; \<open>no\<close> (or \<open>n\<close>)
  returns \<open>{human_approved: False}\<close>; \<open>modify\<close> (or \<open>m\<close>) reads the feedback as the
  next answer, asks the model once for a revised plan from the original plan and the
  feedback, asks for one confirmation and returns
  \<open>{final_plan: revised, human_approved: True}\<close> when it is given and
  \<open>{final_plan: revised, human_approved: False}\<close> when it is declined: the revised plan
  is in the patch either way. The modification is a single round: the node returns
  after two answers, one model call and one confirmation, and never goes back to the
  question.
\<close>

theorem human_approval_state_machine:
  assumes "state ''destination'' = Some d"
    and "state ''dates'' = Some t"
    and "state ''budget'' = Some b"
    and "state ''final_plan'' = Some plan"
    and "approval = py_strip (py_lower (prompt_ask ev (asked w)))"
    and "vars = [(''original_plan'', plan),
                 (''feedback'', PyStr (py_strip (prompt_ask ev (Suc (asked w)))))]"
    and "w' = w\<lparr>asked := Suc (Suc (asked w)),
                llm_calls := llm_calls w @ [(modification_prompt, vars)],
                confirmed := Suc (confirmed w)\<rparr>"
  shows "(approval \<in> {''yes'', ''y''} \<longrightarrow>
            human_approval_agent ev w state =
              Some (Inr [''human_approved'' \<mapsto> PyBool True], w\<lparr>asked := Suc (asked w)\<rparr>)) \<and>
         (approval \<in> {''no'', ''n''} \<longrightarrow>
            human_approval_agent ev w state =
              Some (Inr [''human_approved'' \<mapsto> PyBool False], w\<lparr>asked := Suc (asked w)\<rparr>)) \<and>
         (approval \<in> {''modify'', ''m''} \<and>
          llm ev (length (llm_calls w)) modification_prompt vars = Inr revised_plan \<and>
          confirm_ask ev (confirmed w) \<longrightarrow>
            human_approval_agent ev w state =
              Some (Inr [''final_plan'' \<mapsto> PyStr revised_plan,
                         ''human_approved'' \<mapsto> PyBool True], w')) \<and>
         (approval \<in> {''modify'', ''m''} \<and>
          llm ev (length (llm_calls w)) modification_prompt vars = Inr revised_plan \<and>
          \<not> confirm_ask ev (confirmed w) \<longrightarrow>
            human_approval_agent ev w state =
              Some (Inr [''final_plan'' \<mapsto> PyStr revised_plan,
                         ''human_approved'' \<mapsto> PyBool False], w'))"
  unfolding human_approval_agent_loop [OF assms(1-4)] assms(5-7)
  by (intro conjI impI)
     (simp_all add: approval_loop_yes approval_loop_no approval_loop_modify)

text \<open>
  The scenario of the test suite: the user answers \<open>modify\<close>, then gives the feedback;
  the model returns the revised plan; the user confirms.
\<close>

theorem human_approval_state_machine_witness:
  "human_approval_agent
     (stub_env ''Revised plan with more restaurants''
        [''modify'', ''Please add more restaurants''] True)
     fresh_world
     (complete_travel_state(''final_plan'' \<mapsto> PyStr ''Original plan''))
   = Some (Inr [''final_plan'' \<mapsto> PyStr ''Revised plan with more restaurants'',
                ''human_approved'' \<mapsto> PyBool True],
           \<lparr>llm_calls = [(modification_prompt,
                           [(''original_plan'', PyStr ''Original plan''),
                            (''feedback'', PyStr ''Please add more restaurants'')])],
            asked = 2, confirmed = 1\<rparr>)"
proof -
  let ?ev = "stub_env ''Revised plan with more restaurants''
               [''modify'', ''Please add more restaurants''] True"
  let ?state = "complete_travel_state(''final_plan'' \<mapsto> PyStr ''Original plan'')"
  have req: "?state ''destination'' = Some (PyStr ''Barcelona'')"
    "?state ''dates'' = Some (PyStr ''March 15-20, 2024'')"
    "?state ''budget'' = Some (PyStr ''$2000'')"
    "?state ''final_plan'' = Some (PyStr ''Original plan'')"
    by (simp_all add: complete_travel_state_def)
  have a0: "prompt_ask ?ev (asked fresh_world) = ''modify''"
    and a1: "prompt_ask ?ev (Suc (asked fresh_world)) = ''Please add more restaurants''"
    by (simp_all add: stub_env_def fresh_world_def)
  have n0: "py_strip (py_lower ''modify'') = ''modify''"
    and n1: "py_strip ''Please add more restaurants'' = ''Please add more restaurants''"
    by code_simp+
  have gen: "llm ?ev (length (llm_calls fresh_world)) modification_prompt
               [(''original_plan'', PyStr ''Original plan''),
                (''feedback'', PyStr ''Please add more restaurants'')]
             = Inr ''Revised plan with more restaurants''"
    and yes: "confirm_ask ?ev (confirmed fresh_world)"
    by (simp_all add: stub_env_def)
  have a1': "prompt_ask ?ev (Suc 0) = ''Please add more restaurants''"
    by (simp add: stub_env_def)
  have modify: "py_strip (py_lower (prompt_ask ?ev (asked fresh_world))) \<in> {''modify'', ''m''} \<and>
      llm ?ev (length (llm_calls fresh_world)) modification_prompt
        [(''original_plan'', PyStr ''Original plan''),
         (''feedback'', PyStr (py_strip (prompt_ask ?ev (Suc (asked fresh_world)))))]
        = Inr ''Revised plan with more restaurants'' \<and>
      confirm_ask ?ev (confirmed fresh_world)"
    unfolding a0 a1 n0 n1 using gen yes by simp
  note machine = human_approval_state_machine [OF req refl refl refl, of ?ev fresh_world
      "''Revised plan with more restaurants''"]
  note run = machine [THEN conjunct2, THEN conjunct2, THEN conjunct1, THEN mp, OF modify]
  show ?thesis
    unfolding run by (simp add: fresh_world_def a1' n1)
qed

text \<open>
  Which errors the loop can return: only one that the model gave to the single request
  for a revised plan.
\<close>

lemma approval_loop_error:
  assumes "approval_loop ev w plan = Some (Inl e, w')"
  shows "\<exists>n vars. llm ev n modification_prompt vars = Inl e"
proof -
  let ?P = "\<lambda>k. asked w \<le> k \<and> valid_choice (prompt_ask ev k)"
  from approval_loop_returns_valid [OF assms] have ex: "\<exists>k. ?P k"
    by blast
  define k where "k = (LEAST k. ?P k)"
  have Pk: "?P k"
    unfolding k_def using ex by (rule LeastI_ex)
  have first: "\<forall>j. asked w \<le> j \<and> j < k \<longrightarrow> \<not> valid_choice (prompt_ask ev j)"
    unfolding k_def using not_less_Least by blast
  from Pk first have eq: "approval_loop ev w plan = approval_loop ev (w\<lparr>asked := k\<rparr>) plan"
    by (intro approval_loop_first_valid) auto
  from Pk have "valid_choice (prompt_ask ev (asked (w\<lparr>asked := k\<rparr>)))"
    by simp
  then show ?thesis
    using assms unfolding eq valid_choice_cases
    by (elim disjE)
       (auto simp: approval_loop_yes approval_loop_no approval_loop_modify split: sum.splits)
qed

text \<open>
  Claim C7. Whatever the user types, the node does not fail on an answer outside
  \<open>yes\<close>, \<open>y\<close>, \<open>no\<close>, \<open>n\<close>, \<open>modify\<close>, \<open>m\<close>: it asks again. If the answer number
  \<open>k\<close> is the first valid one, the node returns, and returns what the loop returns when
  started at that answer, the answers before it having changed nothing but the count of
  questions asked. It returns if and only if a valid answer comes at all; with none it
  asks forever. The only error it can return is one the model gave to the request for a
  revised plan, after a valid \<open>modify\<close>.
\<close>

theorem human_approval_reprompts:
  assumes "state ''destination'' = Some d"
    and "state ''dates'' = Some t"
    and "state ''budget'' = Some b"
    and "state ''final_plan'' = Some plan"
  shows "(\<forall>k. asked w \<le> k \<and> valid_choice (prompt_ask ev k) \<and>
              (\<forall>j. asked w \<le> j \<and> j < k \<longrightarrow> \<not> valid_choice (prompt_ask ev j)) \<longrightarrow>
              (\<exists>r. human_approval_agent ev w state = Some r \<and>
                    approval_loop ev (w\<lparr>asked := k\<rparr>) plan = Some r)) \<and>
         ((\<exists>r. human_approval_agent ev w state = Some r) \<longleftrightarrow>
          (\<exists>k\<ge>asked w. valid_choice (prompt_ask ev k))) \<and>
         (\<forall>e w'. human_approval_agent ev w state = Some (Inl e, w') \<longrightarrow>
                  (\<exists>n vars. llm ev n modification_prompt vars = Inl e))"
proof -
  note loop = human_approval_agent_loop [OF assms]
  have first: "\<exists>r. approval_loop ev w plan = Some r \<and>
                    approval_loop ev (w\<lparr>asked := k\<rparr>) plan = Some r"
    if "asked w \<le> k" "valid_choice (prompt_ask ev k)"
      "\<forall>j. asked w \<le> j \<and> j < k \<longrightarrow> \<not> valid_choice (prompt_ask ev j)" for k
  proof -
    from that(1,3) have eq: "approval_loop ev w plan = approval_loop ev (w\<lparr>asked := k\<rparr>) plan"
      by (rule approval_loop_first_valid)
    from that(2) have "valid_choice (prompt_ask ev (asked (w\<lparr>asked := k\<rparr>)))"
      by simp
    from approval_loop_valid [OF this] obtain r where
      "approval_loop ev (w\<lparr>asked := k\<rparr>) plan = Some r"
      by blast
    with eq show ?thesis
      by simp
  qed
  have returns: "\<exists>r. approval_loop ev w plan = Some r"
    if ex: "\<exists>k\<ge>asked w. valid_choice (prompt_ask ev k)"
  proof -
    let ?P = "\<lambda>k. asked w \<le> k \<and> valid_choice (prompt_ask ev k)"
    define k where "k = (LEAST k. ?P k)"
    from ex have "\<exists>k. ?P k"
      by blast
    then have Pk: "?P k"
      unfolding k_def by (rule LeastI_ex)
    have "\<forall>j. asked w \<le> j \<and> j < k \<longrightarrow> \<not> valid_choice (prompt_ask ev j)"
      unfolding k_def using not_less_Least by blast
    with Pk first [of k] show ?thesis
      by blast
  qed
  show ?thesis
    unfolding loop
    using first returns approval_loop_returns_valid approval_loop_error
    by (intro conjI allI impI iffI) blast+
qed

text \<open>Two answers outside the accepted set, then \<open>Yes\<close> with a trailing blank.\<close>

theorem human_approval_reprompts_witness:
  "human_approval_agent (stub_env ''unused'' [''maybe'', ''sure'', ''Yes ''] True)
     fresh_world (complete_travel_state(''final_plan'' \<mapsto> PyStr ''Original plan''))
   = Some (Inr [''human_approved'' \<mapsto> PyBool True], fresh_world\<lparr>asked := 3\<rparr>)"
proof -
  let ?ev = "stub_env ''unused'' [''maybe'', ''sure'', ''Yes ''] True"
  let ?state = "complete_travel_state(''final_plan'' \<mapsto> PyStr ''Original plan'')"
  have req: "?state ''destination'' = Some (PyStr ''Barcelona'')"
    "?state ''dates'' = Some (PyStr ''March 15-20, 2024'')"
    "?state ''budget'' = Some (PyStr ''$2000'')"
    "?state ''final_plan'' = Some (PyStr ''Original plan'')"
    by (simp_all add: complete_travel_state_def)
  have answers: "prompt_ask ?ev 0 = ''maybe''" "prompt_ask ?ev (Suc 0) = ''sure''"
    "prompt_ask ?ev 2 = ''Yes ''"
    by (simp_all add: stub_env_def)
  have norm: "py_strip (py_lower ''Yes '') = ''yes''"
    by code_simp
  have v0: "\<not> valid_choice ''maybe''" and v1: "\<not> valid_choice ''sure''"
    and v2: "valid_choice ''Yes ''"
    by code_simp+
  have small: "j = 0 \<or> j = Suc 0" if "j < 2" for j :: nat
    using that by arith
  have before: "\<not> valid_choice (prompt_ask ?ev j)" if "j < 2" for j
    using small [OF that] answers v0 v1 by auto
  have first: "asked fresh_world \<le> 2 \<and> valid_choice (prompt_ask ?ev 2) \<and>
      (\<forall>j. asked fresh_world \<le> j \<and> j < 2 \<longrightarrow> \<not> valid_choice (prompt_ask ?ev j))"
    using before by (simp add: answers v2 fresh_world_def)
  have at2: "approval_loop ?ev (fresh_world\<lparr>asked := 2\<rparr>) (PyStr ''Original plan'')
      = Some (Inr [''human_approved'' \<mapsto> PyBool True], fresh_world\<lparr>asked := 3\<rparr>)"
    by (subst approval_loop_yes) (simp_all add: answers norm)
  note reprompts = human_approval_reprompts [OF req, of fresh_world ?ev]
  from reprompts [THEN conjunct1, rule_format, OF first] obtain r where
    ret: "human_approval_agent ?ev fresh_world ?state = Some r"
    and loop: "approval_loop ?ev (fresh_world\<lparr>asked := 2\<rparr>) (PyStr ''Original plan'') = Some r"
    by blast
  from loop have "r = (Inr [''human_approved'' \<mapsto> PyBool True], fresh_world\<lparr>asked := 3\<rparr>)"
    unfolding at2 by simp
  then show ?thesis
    unfolding ret by simp
qed


section \<open>Runs of the graph: bookkeeping and order\<close>

lemma consistentI:
  assumes "distinct (history c)"
    and "\<And>n. n \<in> set (started c) \<longleftrightarrow> Invoked n \<in> set (history c)"
    and "\<And>n. n \<in> set (merged c) \<longleftrightarrow> Merged n \<in> set (history c)"
    and "\<And>n. n \<in> fst ` set (pending c) \<Longrightarrow> n \<in> set (started c)"
    and "\<And>n. n \<in> fst ` set (pending c) \<Longrightarrow> n \<notin> set (merged c)"
    and "\<And>n e. n \<in> fst ` set (pending c) \<Longrightarrow> Failed n e \<notin> set (history c)"
    and "\<And>n. n \<in> set (merged c) \<Longrightarrow> n \<in> set (started c)"
    and "\<And>n e. Failed n e \<in> set (history c) \<Longrightarrow> n \<in> set (started c)"
    and "\<And>n e. Failed n e \<in> set (history c) \<Longrightarrow> n \<notin> set (merged c)"
    and "failure c = None \<longleftrightarrow> (\<forall>n e. Failed n e \<notin> set (history c))"
  shows "consistent c"
  unfolding consistent_def
  by (intro conjI allI impI; (rule assms | erule assms))

lemma consistentD:
  assumes "consistent c"
  shows "distinct (history c)"
    and "n \<in> set (started c) \<longleftrightarrow> Invoked n \<in> set (history c)"
    and "n \<in> set (merged c) \<longleftrightarrow> Merged n \<in> set (history c)"
    and "n \<in> fst ` set (pending c) \<Longrightarrow> n \<in> set (started c)"
    and "n \<in> fst ` set (pending c) \<Longrightarrow> n \<notin> set (merged c)"
    and "n \<in> fst ` set (pending c) \<Longrightarrow> Failed n e \<notin> set (history c)"
    and "n \<in> set (merged c) \<Longrightarrow> n \<in> set (started c)"
    and "Failed n e \<in> set (history c) \<Longrightarrow> n \<in> set (started c)"
    and "Failed n e \<in> set (history c) \<Longrightarrow> n \<notin> set (merged c)"
    and "failure c = None \<longleftrightarrow> (\<forall>n e. Failed n e \<notin> set (history c))"
  using assms unfolding consistent_def by (elim conjE allE [of _ n] allE [of _ e]; simp)+

lemma pending_filter:
  assumes "m \<in> fst ` set (filter (\<lambda>(m, r). m \<noteq> n) ps)"
  shows "m \<in> fst ` set ps" and "m \<noteq> n"
  using assms by force+

lemma step_Run:
  assumes "step ev g c (Run n) = Some c'"
  shows "eligible g c n \<and>
         (\<exists>r w'. c' = c\<lparr>outside := w', pending := pending c @ [(n, r)],
                         started := started c @ [n],
                         history := history c @ [Invoked n]\<rparr>)"
  using assms by (auto split: if_splits option.splits)

lemma step_Complete:
  assumes "step ev g c (Complete n) = Some c'"
  shows "n \<in> fst ` set (pending c) \<and>
         ((\<exists>patch. map_of (pending c) n = Some (Inr patch) \<and>
             c' = c\<lparr>shared := merge (shared c) patch,
                     pending := filter (\<lambda>(m, r). m \<noteq> n) (pending c),
                     merged := merged c @ [n],
                     history := history c @ [Merged n]\<rparr>) \<or>
          (\<exists>e. map_of (pending c) n = Some (Inl e) \<and>
             c' = c\<lparr>pending := filter (\<lambda>(m, r). m \<noteq> n) (pending c),
                     failure := (case failure c of None \<Rightarrow> Some e | Some e' \<Rightarrow> Some e'),
                     history := history c @ [Failed n e]\<rparr>))"
proof -
  from assms obtain r where r: "map_of (pending c) n = Some r"
    by (auto split: option.splits)
  then have "(n, r) \<in> set (pending c)"
    by (rule map_of_SomeD)
  then have "n \<in> fst ` set (pending c)"
    by force
  with assms r show ?thesis
    by (cases r) simp_all
qed

lemma consistent_Run:
  assumes c: "consistent c" and n: "n \<notin> set (started c)"
  shows "consistent (c\<lparr>outside := w', pending := pending c @ [(n, r)],
                       started := started c @ [n],
                       history := history c @ [Invoked n]\<rparr>)"
proof (rule consistentI)
  note d = consistentD [OF c]
  from n d(2) have fresh: "Invoked n \<notin> set (history c)" by simp
  from n d(7) have nm: "n \<notin> set (merged c)" by blast
  from n d(8) have nf: "Failed n e \<notin> set (history c)" for e by blast
  let ?c = "c\<lparr>outside := w', pending := pending c @ [(n, r)],
                       started := started c @ [n],
                       history := history c @ [Invoked n]\<rparr>"
  show "distinct (history ?c)" using d(1) fresh by simp
  show "m \<in> set (started ?c) \<longleftrightarrow> Invoked m \<in> set (history ?c)" for m
    using d(2) [of m] by auto
  show "m \<in> set (merged ?c) \<longleftrightarrow> Merged m \<in> set (history ?c)" for m
    using d(3) [of m] by simp
  show "m \<in> set (started ?c)" if "m \<in> fst ` set (pending ?c)" for m
    using that d(4) [of m] by auto
  show "m \<notin> set (merged ?c)" if "m \<in> fst ` set (pending ?c)" for m
    using that d(5) [of m] nm by auto
  show "Failed m e \<notin> set (history ?c)" if "m \<in> fst ` set (pending ?c)" for m e
    using that d(6) [of m e] nf [of e] by auto
  show "m \<in> set (started ?c)" if "m \<in> set (merged ?c)" for m
    using that d(7) [of m] by simp
  show "m \<in> set (started ?c)" if "Failed m e \<in> set (history ?c)" for m e
    using that d(8) [of m e] by simp
  show "m \<notin> set (merged ?c)" if "Failed m e \<in> set (history ?c)" for m e
    using that d(9) [of m e] by simp
  show "failure ?c = None \<longleftrightarrow> (\<forall>m e. Failed m e \<notin> set (history ?c))"
    using d(10) by simp
qed

lemma consistent_Merged:
  assumes c: "consistent c" and n: "n \<in> fst ` set (pending c)"
  shows "consistent (c\<lparr>shared := s', pending := filter (\<lambda>(m, r). m \<noteq> n) (pending c),
                       merged := merged c @ [n],
                       history := history c @ [Merged n]\<rparr>)"
proof (rule consistentI)
  note d = consistentD [OF c]
  from n d(5) have nm: "n \<notin> set (merged c)" by blast
  with d(3) have fresh: "Merged n \<notin> set (history c)" by simp
  from n d(4) have ns: "n \<in> set (started c)" by blast
  from n d(6) have nf: "Failed n e \<notin> set (history c)" for e by blast
  let ?c = "c\<lparr>shared := s', pending := filter (\<lambda>(m, r). m \<noteq> n) (pending c),
                       merged := merged c @ [n],
                       history := history c @ [Merged n]\<rparr>"
  show "distinct (history ?c)" using d(1) fresh by simp
  show "m \<in> set (started ?c) \<longleftrightarrow> Invoked m \<in> set (history ?c)" for m
    using d(2) [of m] by simp
  show "m \<in> set (merged ?c) \<longleftrightarrow> Merged m \<in> set (history ?c)" for m
    using d(3) [of m] by auto
  show "m \<in> set (started ?c)" if "m \<in> fst ` set (pending ?c)" for m
    using pending_filter [of m n "pending c"] that d(4) [of m] by simp
  show "m \<notin> set (merged ?c)" if "m \<in> fst ` set (pending ?c)" for m
    using pending_filter [of m n "pending c"] that d(5) [of m] by simp
  show "Failed m e \<notin> set (history ?c)" if "m \<in> fst ` set (pending ?c)" for m e
    using pending_filter [of m n "pending c"] that d(6) [of m e] by simp
  show "m \<in> set (started ?c)" if "m \<in> set (merged ?c)" for m
    using that d(7) [of m] ns by auto
  show "m \<in> set (started ?c)" if "Failed m e \<in> set (history ?c)" for m e
    using that d(8) [of m e] by simp
  show "m \<notin> set (merged ?c)" if "Failed m e \<in> set (history ?c)" for m e
    using that d(9) [of m e] nf [of e] by auto
  show "failure ?c = None \<longleftrightarrow> (\<forall>m e. Failed m e \<notin> set (history ?c))"
    using d(10) by simp
qed

lemma consistent_Failed:
  assumes c: "consistent c" and n: "n \<in> fst ` set (pending c)"
  shows "consistent (c\<lparr>pending := filter (\<lambda>(m, r). m \<noteq> n) (pending c),
                       failure := (case failure c of None \<Rightarrow> Some e | Some e' \<Rightarrow> Some e'),
                       history := history c @ [Failed n e]\<rparr>)"
proof (rule consistentI)
  note d = consistentD [OF c]
  from n d(5) have nm: "n \<notin> set (merged c)" by blast
  from n d(4) have ns: "n \<in> set (started c)" by blast
  from n d(6) have fresh: "Failed n e \<notin> set (history c)" by blast
  let ?c = "c\<lparr>pending := filter (\<lambda>(m, r). m \<noteq> n) (pending c),
                       failure := (case failure c of None \<Rightarrow> Some e | Some e' \<Rightarrow> Some e'),
                       history := history c @ [Failed n e]\<rparr>"
  show "distinct (history ?c)" using d(1) fresh by simp
  show "m \<in> set (started ?c) \<longleftrightarrow> Invoked m \<in> set (history ?c)" for m
    using d(2) [of m] by simp
  show "m \<in> set (merged ?c) \<longleftrightarrow> Merged m \<in> set (history ?c)" for m
    using d(3) [of m] by simp
  show "m \<in> set (started ?c)" if "m \<in> fst ` set (pending ?c)" for m
    using pending_filter [of m n "pending c"] that d(4) [of m] by simp
  show "m \<notin> set (merged ?c)" if "m \<in> fst ` set (pending ?c)" for m
    using pending_filter [of m n "pending c"] that d(5) [of m] by simp
  show "Failed m x \<notin> set (history ?c)" if "m \<in> fst ` set (pending ?c)" for m x
    using pending_filter [of m n "pending c"] that d(6) [of m x] by simp
  show "m \<in> set (started ?c)" if "m \<in> set (merged ?c)" for m
    using that d(7) [of m] by simp
  show "m \<in> set (started ?c)" if "Failed m x \<in> set (history ?c)" for m x
    using that d(8) [of m x] ns by auto
  show "m \<notin> set (merged ?c)" if "Failed m x \<in> set (history ?c)" for m x
    using that d(9) [of m x] nm by auto
  show "failure ?c = None \<longleftrightarrow> (\<forall>m x. Failed m x \<notin> set (history ?c))"
    by (auto split: option.split)
qed

lemma step_consistent:
  assumes "consistent c" and "step ev g c a = Some c'"
  shows "consistent c'"
proof (cases a)
  case (Run n)
  with assms(2) have s: "step ev g c (Run n) = Some c'" by simp
  from step_Run [OF s] obtain r w' where
    "eligible g c n" and
    c': "c' = c\<lparr>outside := w', pending := pending c @ [(n, r)],
                  started := started c @ [n], history := history c @ [Invoked n]\<rparr>"
    by blast
  then have "n \<notin> set (started c)" by (simp add: eligible_def)
  with assms(1) show ?thesis unfolding c' by (rule consistent_Run)
next
  case (Complete n)
  with assms(2) have s: "step ev g c (Complete n) = Some c'" by simp
  from step_Complete [OF s] assms(1) show ?thesis
    by (auto intro: consistent_Merged consistent_Failed)
qed

lemma consistent_initial: "consistent (initial state w)"
  by (simp add: consistent_def initial_def)

lemma ordered_initial: "ordered g (initial state w)"
  by (simp add: ordered_def initial_def)

lemma snoc_eq_split:
  "xs @ [x] = ys @ y # zs \<longleftrightarrow>
     (zs = [] \<and> xs = ys \<and> x = y) \<or> (\<exists>zs'. zs = zs' @ [x] \<and> xs = ys @ y # zs')"
  by (cases zs rule: rev_cases) auto

lemma orderedI:
  assumes "\<And>pre post n. history c = pre @ Invoked n # post \<Longrightarrow>
             list_all (\<lambda>p. Merged p \<in> set pre) (predecessors g n)"
    and "\<And>pre post n. history c = pre @ Merged n # post \<Longrightarrow> Invoked n \<in> set pre"
    and "\<And>pre post n e. history c = pre @ Failed n e # post \<Longrightarrow> Invoked n \<in> set pre"
  shows "ordered g c"
  unfolding ordered_def
  by (intro conjI allI impI; (erule assms))

lemma orderedD:
  assumes "ordered g c"
  shows "history c = pre @ Invoked n # post \<Longrightarrow>
           list_all (\<lambda>p. Merged p \<in> set pre) (predecessors g n)"
    and "history c = pre @ Merged n # post \<Longrightarrow> Invoked n \<in> set pre"
    and "history c = pre @ Failed n e # post \<Longrightarrow> Invoked n \<in> set pre"
  using assms unfolding ordered_def by blast+

text \<open>Appending an event keeps the order if the new event itself is in order.\<close>

lemma ordered_snoc:
  assumes o: "ordered g c"
    and h: "history c' = history c @ [x]"
    and inv: "\<And>n. x = Invoked n \<Longrightarrow>
                list_all (\<lambda>p. Merged p \<in> set (history c)) (predecessors g n)"
    and mer: "\<And>n. x = Merged n \<Longrightarrow> Invoked n \<in> set (history c)"
    and fai: "\<And>n e. x = Failed n e \<Longrightarrow> Invoked n \<in> set (history c)"
  shows "ordered g c'"
proof (rule orderedI)
  fix pre post n
  assume "history c' = pre @ Invoked n # post"
  then have "(post = [] \<and> history c = pre \<and> x = Invoked n) \<or>
             (\<exists>zs. post = zs @ [x] \<and> history c = pre @ Invoked n # zs)"
    unfolding h snoc_eq_split .
  then show "list_all (\<lambda>p. Merged p \<in> set pre) (predecessors g n)"
    using inv [of n] orderedD(1) [OF o] by blast
next
  fix pre post n
  assume "history c' = pre @ Merged n # post"
  then have "(post = [] \<and> history c = pre \<and> x = Merged n) \<or>
             (\<exists>zs. post = zs @ [x] \<and> history c = pre @ Merged n # zs)"
    unfolding h snoc_eq_split .
  then show "Invoked n \<in> set pre"
    using mer [of n] orderedD(2) [OF o] by blast
next
  fix pre post n e
  assume "history c' = pre @ Failed n e # post"
  then have "(post = [] \<and> history c = pre \<and> x = Failed n e) \<or>
             (\<exists>zs. post = zs @ [x] \<and> history c = pre @ Failed n e # zs)"
    unfolding h snoc_eq_split .
  then show "Invoked n \<in> set pre"
    using fai [of n e] orderedD(3) [OF o] by blast
qed

lemma step_ordered:
  assumes c: "consistent c" and o: "ordered g c" and s: "step ev g c a = Some c'"
  shows "ordered g c'"
proof (cases a)
  case (Run n)
  with s have s': "step ev g c (Run n) = Some c'" by simp
  from step_Run [OF s'] obtain r w' where
    el: "eligible g c n" and
    c': "c' = c\<lparr>outside := w', pending := pending c @ [(n, r)],
                  started := started c @ [n], history := history c @ [Invoked n]\<rparr>"
    by blast
  from el have "list_all (\<lambda>p. p \<in> set (merged c)) (predecessors g n)"
    by (simp add: eligible_def)
  then have pre: "list_all (\<lambda>p. Merged p \<in> set (history c)) (predecessors g n)"
    by (simp add: consistentD(3) [OF c])
  show ?thesis
    by (rule ordered_snoc [OF o, of c' "Invoked n"]) (simp_all add: c' pre)
next
  case (Complete n)
  with s have s': "step ev g c (Complete n) = Some c'" by simp
  from step_Complete [OF s'] have mem: "n \<in> fst ` set (pending c)"
    and h: "history c' = history c @ [Merged n] \<or> (\<exists>e. history c' = history c @ [Failed n e])"
    by auto
  from mem have inv: "Invoked n \<in> set (history c)"
    using consistentD(4) [OF c, of n] consistentD(2) [OF c, of n] by simp
  from h show ?thesis
  proof (elim disjE exE)
    assume "history c' = history c @ [Merged n]"
    then show ?thesis
      by (rule ordered_snoc [OF o]) (simp_all add: inv)
  next
    fix e assume "history c' = history c @ [Failed n e]"
    then show ?thesis
      by (rule ordered_snoc [OF o]) (simp_all add: inv)
  qed
qed

lemma run_invariants:
  assumes "consistent c" and "ordered g c" and "run ev g c as = Some c'"
  shows "consistent c' \<and> ordered g c'"
  using assms
proof (induction as arbitrary: c)
  case Nil
  then show ?case by simp
next
  case (Cons a as)
  from Cons.prems(3) obtain c1 where
    s: "step ev g c a = Some c1" and r: "run ev g c1 as = Some c'"
    by (auto split: option.splits)
  from Cons.prems(1) s have "consistent c1"
    by (rule step_consistent)
  moreover from Cons.prems(1,2) s have "ordered g c1"
    by (rule step_ordered)
  ultimately show ?case
    using r by (rule Cons.IH)
qed

lemma run_from_initial:
  assumes "run ev g (initial state w) as = Some c"
  shows "consistent c" and "ordered g c"
  using run_invariants [OF consistent_initial ordered_initial assms] by simp_all


section \<open>The barrier before the consolidation\<close>

lemmas workflow_defs =
  create_parallelization_workflow_def predecessors_def END_def

lemma workflow_predecessors:
  "predecessors create_parallelization_workflow ''consolidate'' = gather_nodes"
  "predecessors create_parallelization_workflow ''human_approval'' = [''consolidate'']"
  "predecessors create_parallelization_workflow END = [''human_approval'']"
  by (simp_all add: workflow_defs gather_nodes_def)

lemma workflow_consolidate:
  "map_of (nodes create_parallelization_workflow) ''consolidate'' = Some (total consolidate_plan)"
  by (simp add: workflow_defs)

lemma distinct_count_le: "distinct xs \<Longrightarrow> count_list xs x \<le> 1"
  by (induction xs) auto

lemma count_one: "distinct xs \<Longrightarrow> x \<in> set xs \<Longrightarrow> count_list xs x = 1"
  by (induction xs) auto

theorem consolidate_barrier:
  assumes "run ev create_parallelization_workflow (initial state w) as = Some c"
  shows "(\<forall>pre post. history c = pre @ Invoked ''consolidate'' # post \<longrightarrow>
            list_all (\<lambda>n. Merged n \<in> set pre) gather_nodes) \<and>
         count_list (history c) (Invoked ''consolidate'') \<le> 1 \<and>
         (\<forall>pre post. history c = pre @ Invoked ''human_approval'' # post \<longrightarrow>
            Invoked ''consolidate'' \<in> set pre \<and> Merged ''consolidate'' \<in> set pre) \<and>
         (list_all (\<lambda>n. n \<in> set (merged c)) gather_nodes \<and>
          ''consolidate'' \<notin> set (started c) \<longrightarrow>
            step ev create_parallelization_workflow c (Run ''consolidate'') \<noteq> None) \<and>
         (Merged ''human_approval'' \<in> set (history c) \<longrightarrow>
            count_list (history c) (Invoked ''consolidate'') = 1)"
proof -
  let ?g = create_parallelization_workflow
  note c = run_from_initial(1) [OF assms] and o = run_from_initial(2) [OF assms]
  have barrier: "list_all (\<lambda>n. Merged n \<in> set pre) gather_nodes"
    if "history c = pre @ Invoked ''consolidate'' # post" for pre post
  proof -
    from orderedD(1) [OF o that] show ?thesis
      by (simp add: workflow_predecessors)
  qed
  have once: "count_list (history c) (Invoked ''consolidate'') \<le> 1"
    using consistentD(1) [OF c] by (rule distinct_count_le)
  have approval: "Invoked ''consolidate'' \<in> set pre \<and> Merged ''consolidate'' \<in> set pre"
    if h: "history c = pre @ Invoked ''human_approval'' # post" for pre post
  proof -
    from orderedD(1) [OF o h] have m: "Merged ''consolidate'' \<in> set pre"
      by (simp add: workflow_predecessors)
    then obtain p1 p2 where pre: "pre = p1 @ Merged ''consolidate'' # p2"
      by (auto dest: split_list)
    with h have "history c = p1 @ Merged ''consolidate'' # (p2 @ Invoked ''human_approval'' # post)"
      by simp
    from orderedD(2) [OF o this] have "Invoked ''consolidate'' \<in> set p1" .
    with pre m show ?thesis by simp
  qed
  have enabled: "step ev ?g c (Run ''consolidate'') \<noteq> None"
    if "list_all (\<lambda>n. n \<in> set (merged c)) gather_nodes" "''consolidate'' \<notin> set (started c)"
  proof -
    from that have "eligible ?g c ''consolidate''"
      by (simp add: eligible_def workflow_predecessors) (simp add: gather_nodes_def)
    then show ?thesis
      by (simp add: workflow_consolidate total_def split: prod.split)
  qed
  have finished: "count_list (history c) (Invoked ''consolidate'') = 1"
    if "Merged ''human_approval'' \<in> set (history c)"
  proof -
    from that obtain p1 p2 where h1: "history c = p1 @ Merged ''human_approval'' # p2"
      by (auto dest: split_list)
    from orderedD(2) [OF o h1] obtain q1 q2 where "p1 = q1 @ Invoked ''human_approval'' # q2"
      by (auto dest: split_list)
    with h1 have "history c = q1 @ Invoked ''human_approval'' # (q2 @ Merged ''human_approval'' # p2)"
      by simp
    from approval [OF this] have "Invoked ''consolidate'' \<in> set (history c)"
      using \<open>history c = q1 @ Invoked ''human_approval'' # (q2 @ Merged ''human_approval'' # p2)\<close>
      by simp
    with consistentD(1) [OF c] show ?thesis by (rule count_one)
  qed
  from barrier once approval enabled finished show ?thesis
    by blast
qed

end
